theory Spec2Isabelle
  imports Main "HOL-Library.Sublist"
begin

section \<open>JavaScript values as the index validator sees them\<close>

text \<open>
  A JavaScript string is a sequence of UTF-16 code units; a code unit is modelled as a
  natural number (below 65536 in any real string; nothing below depends on the bound).
  \<open>lit\<close> turns an ASCII literal of the script into such a sequence.
\<close>

type_synonym jsstring = "nat list"

definition lit :: "string \<Rightarrow> jsstring" where
  "lit s = map of_char s"

text \<open>
  The result of \<open>JSON.parse\<close>. The validator observes a number only through its type and
  through the text that string coercion gives it, so \<open>JNum\<close> carries that text
  (\<open>JNum (lit ''1.5'')\<close>). An object keeps its members in document order; \<open>JSON.parse\<close>
  lets the last member of a repeated name win. \<open>undefined\<close>, the value of a property that
  is not there, is \<open>None\<close> in the type \<open>json option\<close>.
\<close>

datatype json =
    JNull
  | JBool bool
  | JNum jsstring
  | JStr jsstring
  | JArr "json list"
  | JObj "(jsstring \<times> json) list"

fun own_property :: "(jsstring \<times> json) list \<Rightarrow> jsstring \<Rightarrow> json option" where
  "own_property [] k = None"
| "own_property ((k', v) # kvs) k =
     (case own_property kvs k of
        Some w \<Rightarrow> Some w
      | None \<Rightarrow> if k' = k then Some v else None)"

text \<open>
  \<open>record[key]\<close> for the twelve field names the script reads. None of them is an array
  index, \<open>length\<close>, or a name inherited from \<open>Object.prototype\<close> or \<open>Array.prototype\<close>, so
  an array has none of them and an object has exactly its own members. The guard of the
  entry loop keeps every other kind of value away from this read.
\<close>

fun field :: "json \<Rightarrow> jsstring \<Rightarrow> json option" where
  "field (JObj kvs) k = own_property kvs k"
| "field (JArr xs) k = None"
| "field v k = None"

fun truthy :: "json \<Rightarrow> bool" where
  "truthy JNull = False"
| "truthy (JBool b) = b"
| "truthy (JNum t) = (t \<noteq> lit ''0'')"
| "truthy (JStr s) = (s \<noteq> [])"
| "truthy (JArr xs) = True"
| "truthy (JObj kvs) = True"

fun typeof :: "json \<Rightarrow> jsstring" where
  "typeof JNull = lit ''object''"
| "typeof (JBool b) = lit ''boolean''"
| "typeof (JNum t) = lit ''number''"
| "typeof (JStr s) = lit ''string''"
| "typeof (JArr xs) = lit ''object''"
| "typeof (JObj kvs) = lit ''object''"

subsection \<open>String coercion\<close>

text \<open>
  \<open>Array.prototype.join\<close> with the default separator, over the texts of the elements;
  \<open>None\<close> is a thrown \<open>TypeError\<close>.
\<close>

fun join_comma :: "jsstring option list \<Rightarrow> jsstring option" where
  "join_comma [] = Some []"
| "join_comma [x] = x"
| "join_comma (x # y # ys) =
     (case x of
        None \<Rightarrow> None
      | Some a \<Rightarrow>
          (case join_comma (y # ys) of
             None \<Rightarrow> None
           | Some b \<Rightarrow> Some (a @ lit '','' @ b)))"

text \<open>
  \<open>ToString\<close> on a parsed value, as \<open>String(v)\<close> and a template literal apply it.
  An array is joined, with \<open>null\<close> elements as the empty text. A plain object goes through
  \<open>OrdinaryToPrimitive\<close>: it looks up \<open>toString\<close>, then \<open>valueOf\<close>. A member named
  \<open>toString\<close> (never callable, coming from JSON) hides \<open>Object.prototype.toString\<close>;
  \<open>valueOf\<close> is then either another JSON member or \<open>Object.prototype.valueOf\<close>, which
  returns the object itself, so no primitive is found and a \<open>TypeError\<close> is thrown (\<open>None\<close>).
  Without such a member the text is \<open>[object Object]\<close>.
\<close>

fun to_string :: "json \<Rightarrow> jsstring option" where
  "to_string JNull = Some (lit ''null'')"
| "to_string (JBool b) = Some (if b then lit ''true'' else lit ''false'')"
| "to_string (JNum t) = Some t"
| "to_string (JStr s) = Some s"
| "to_string (JArr xs) =
     join_comma (map (\<lambda>x. if x = JNull then Some [] else to_string x) xs)"
| "to_string (JObj kvs) =
     (if own_property kvs (lit ''toString'') \<noteq> None then None
      else Some (lit ''[object Object]''))"

fun to_text :: "json option \<Rightarrow> jsstring option" where
  "to_text None = Some (lit ''undefined'')"
| "to_text (Some v) = to_string v"

text \<open>The decimal text of an array position, as \<open>${i}\<close> renders it.\<close>

fun decimal :: "nat \<Rightarrow> jsstring" where
  "decimal n = (if n < 10 then [48 + n] else decimal (n div 10) @ [48 + n mod 10])"

declare decimal.simps [simp del]

section \<open>The runtime the script calls\<close>

text \<open>
  The \<open>URL\<close> and \<open>Date\<close> constructors belong to the JavaScript runtime, not to the
  repository. They are parameters of the model: \<open>url_protocol s\<close> is the \<open>protocol\<close> of
  \<open>new URL(s)\<close>, or \<open>None\<close> when the constructor throws; \<open>date_is_valid s\<close> says that
  \<open>new Date(s).getTime()\<close> is not \<open>NaN\<close>.
\<close>

record runtime =
  url_protocol :: "jsstring \<Rightarrow> jsstring option"
  date_is_valid :: "jsstring \<Rightarrow> bool"

section \<open>scripts/validate-index.ts\<close>

subsection \<open>Field predicates\<close>

text \<open>
  The code units that \<open>trim\<close> strips: the white space and line terminators of ECMAScript,
  first those up to U+00A0, then the others.
\<close>

definition is_space :: "nat \<Rightarrow> bool" where
  "is_space c =
     (if c \<le> 160 then c \<in> {9, 10, 11, 12, 13, 32, 160}
      else c \<in> {5760, 8232, 8233, 8239, 8287, 12288, 65279} \<or> (8192 \<le> c \<and> c \<le> 8202))"

definition trim :: "jsstring \<Rightarrow> jsstring" where
  "trim s = rev (dropWhile is_space (rev (dropWhile is_space s)))"

definition isNonEmptyString :: "json option \<Rightarrow> bool" where
  "isNonEmptyString v =
     (case v of Some (JStr s) \<Rightarrow> length (trim s) > 0 | _ \<Rightarrow> False)"

definition isHttpsUrl :: "runtime \<Rightarrow> json option \<Rightarrow> bool" where
  "isHttpsUrl rt v =
     (if \<not> isNonEmptyString v then False
      else case v of
             Some (JStr s) \<Rightarrow>
               (case url_protocol rt s of
                  Some p \<Rightarrow> p = lit ''https:''
                | None \<Rightarrow> False)
           | _ \<Rightarrow> False)"

definition is_digit :: "nat \<Rightarrow> bool" where
  "is_digit c \<longleftrightarrow> 48 \<le> c \<and> c \<le> 57"

definition is_hex :: "nat \<Rightarrow> bool" where
  "is_hex c \<longleftrightarrow> (97 \<le> c \<and> c \<le> 102) \<or> (65 \<le> c \<and> c \<le> 70) \<or> (48 \<le> c \<and> c \<le> 57)"

text \<open>\<open>/^[a-fA-F0-9]{64}$/\<close>; without the \<open>m\<close> flag \<open>$\<close> is the end of the input.\<close>

definition matches_sha256 :: "jsstring \<Rightarrow> bool" where
  "matches_sha256 s \<longleftrightarrow> length s = 64 \<and> list_all is_hex s"

definition isSha256 :: "json option \<Rightarrow> bool" where
  "isSha256 v =
     (isNonEmptyString v \<and> (case v of Some (JStr s) \<Rightarrow> matches_sha256 s | _ \<Rightarrow> False))"

text \<open>\<open>/^\d{4}-\d{2}-\d{2}$/\<close>; \<open>\d\<close> is an ASCII digit.\<close>

definition matches_date :: "jsstring \<Rightarrow> bool" where
  "matches_date s \<longleftrightarrow>
     length s = 10
     \<and> list_all is_digit (take 4 s) \<and> s ! 4 = 45
     \<and> list_all is_digit (take 2 (drop 5 s)) \<and> s ! 7 = 45
     \<and> list_all is_digit (drop 8 s)"

definition isIsoDate :: "runtime \<Rightarrow> json option \<Rightarrow> bool" where
  "isIsoDate rt v =
     (if \<not> isNonEmptyString v then False
      else case v of
             Some (JStr s) \<Rightarrow>
               (if \<not> matches_date s then False
                else date_is_valid rt (s @ lit ''T00:00:00Z''))
           | _ \<Rightarrow> False)"

definition assertArrayOfStrings :: "json option \<Rightarrow> bool" where
  "assertArrayOfStrings v =
     (case v of
        Some (JArr xs) \<Rightarrow> length xs > 0 \<and> list_all (\<lambda>x. isNonEmptyString (Some x)) xs
      | _ \<Rightarrow> False)"

subsection \<open>The state of a run\<close>

text \<open>
  What the script mutates: the lines written with \<open>console.error\<close>,
  \<open>process.exitCode\<close> (\<open>None\<close> while it is \<open>undefined\<close>) and the set \<open>seen\<close>.
\<close>

record state =
  errs :: "jsstring list"
  exitCode :: "nat option"
  seen :: "jsstring set"

definition initial :: state where
  "initial = \<lparr>errs = [], exitCode = None, seen = {}\<rparr>"

definition fail :: "jsstring \<Rightarrow> state \<Rightarrow> state" where
  "fail message st = st\<lparr>errs := errs st @ [message], exitCode := Some 1\<rparr>"

text \<open>\<open>if (!ok) fail(message)\<close>.\<close>

definition check :: "bool \<Rightarrow> jsstring \<Rightarrow> state \<Rightarrow> state" where
  "check ok message st = (if \<not> ok then fail message st else st)"

definition allowedSources :: "jsstring set" where
  "allowedSources = {lit ''vendor'', lit ''community'', lit ''internal''}"

definition requiredStrings :: "jsstring list" where
  "requiredStrings = [lit ''id'', lit ''tool'', lit ''version'', lit ''description'', lit ''signer'']"

subsection \<open>One pass of the entry loop\<close>

text \<open>
  A pass either falls through to the next entry or is cut by a \<open>TypeError\<close> that nothing
  catches; both carry the state reached.
\<close>

datatype flow = Normal state | Thrown state

fun state_of :: "flow \<Rightarrow> state" where
  "state_of (Normal st) = st"
| "state_of (Thrown st) = st"

definition entry_prefix :: "nat \<Rightarrow> jsstring" where
  "entry_prefix i = lit ''index.json['' @ decimal i @ lit '']''"

text \<open>The template literal \<open>`${record.id}@${record.version}`\<close>.\<close>

definition entry_key :: "json \<Rightarrow> jsstring option" where
  "entry_key entry =
     (case to_text (field entry (lit ''id'')) of
        None \<Rightarrow> None
      | Some a \<Rightarrow>
          (case to_text (field entry (lit ''version'')) of
             None \<Rightarrow> None
           | Some b \<Rightarrow> Some (a @ lit ''@'' @ b)))"

definition required_checks :: "jsstring \<Rightarrow> json \<Rightarrow> state \<Rightarrow> state" where
  "required_checks pre entry st =
     foldl (\<lambda>s key. check (isNonEmptyString (field entry key))
                       (pre @ lit ''.'' @ key @ lit '' must be a non-empty string'') s)
       st requiredStrings"

definition validate_entry :: "runtime \<Rightarrow> nat \<Rightarrow> json \<Rightarrow> state \<Rightarrow> flow" where
  "validate_entry rt i entry st0 =
     (let pre = entry_prefix i in
      if \<not> truthy entry \<or> typeof entry \<noteq> lit ''object''
      then Normal (fail (pre @ lit '' must be an object'') st0)
      else
        let st1 = required_checks pre entry st0;
            st2 = check (assertArrayOfStrings (field entry (lit ''frameworks'')))
                    (pre @ lit ''.frameworks must be a non-empty string array'') st1;
            st3 = check (assertArrayOfStrings (field entry (lit ''mappingIds'')))
                    (pre @ lit ''.mappingIds must be a non-empty string array'') st2;
            st4 = check (isHttpsUrl rt (field entry (lit ''packUrl'')))
                    (pre @ lit ''.packUrl must be an https URL'') st3;
            st5 = check (isHttpsUrl rt (field entry (lit ''publicKeyUrl'')))
                    (pre @ lit ''.publicKeyUrl must be an https URL'') st4;
            st6 = check (isSha256 (field entry (lit ''sha256'')))
                    (pre @ lit ''.sha256 must be a 64-char hex string'') st5
        in case to_text (field entry (lit ''source'')) of
             None \<Rightarrow> Thrown st6
           | Some src \<Rightarrow>
               let st7 = check (src \<in> allowedSources)
                           (pre @ lit ''.source must be one of: vendor, community, internal'') st6;
                   st8 = check (isIsoDate rt (field entry (lit ''createdAt'')))
                           (pre @ lit ''.createdAt must be ISO date YYYY-MM-DD'') st7
               in case entry_key entry of
                    None \<Rightarrow> Thrown st8
                  | Some key \<Rightarrow>
                      let st9 = check (key \<notin> seen st8)
                                  (pre @ lit '' duplicates id+version '' @ key) st8
                      in Normal (st9\<lparr>seen := insert key (seen st9)\<rparr>))"

text \<open>\<open>for (const [i, entry] of data.entries())\<close>, from position \<open>i\<close> on.\<close>

fun entries_loop :: "runtime \<Rightarrow> nat \<Rightarrow> json list \<Rightarrow> state \<Rightarrow> flow" where
  "entries_loop rt i [] st = Normal st"
| "entries_loop rt i (entry # rest) st =
     (case validate_entry rt i entry st of
        Thrown st' \<Rightarrow> Thrown st'
      | Normal st' \<Rightarrow> entries_loop rt (Suc i) rest st')"

subsection \<open>The whole run\<close>

text \<open>
  The input of a run is what reading and parsing the file gave: the message of the error
  caught around \<open>JSON.parse(fs.readFileSync(...))\<close>, or the parsed value. A run ends by
  leaving with an exit status, or by the uncaught \<open>TypeError\<close>, after which the runtime
  reports the error itself; \<open>stderr\<close> and \<open>stdout\<close> hold the lines the script wrote.
\<close>

datatype loaded = Unreadable jsstring | Parsed json

datatype ending = Exit nat | Uncaught_TypeError

record outcome =
  stderr :: "jsstring list"
  stdout :: "jsstring list"
  ending :: ending

definition validate_index :: "runtime \<Rightarrow> jsstring \<Rightarrow> loaded \<Rightarrow> outcome" where
  "validate_index rt indexPath input =
     (case input of
        Unreadable message \<Rightarrow>
          \<lparr>stderr = [lit ''Failed to read '' @ indexPath @ lit '': '' @ message],
           stdout = [], ending = Exit 1\<rparr>
      | Parsed data \<Rightarrow>
          (case data of
             JArr entries \<Rightarrow>
               (case entries_loop rt 0 entries initial of
                  Thrown st \<Rightarrow> \<lparr>stderr = errs st, stdout = [], ending = Uncaught_TypeError\<rparr>
                | Normal st \<Rightarrow>
                    (case exitCode st of
                       Some c \<Rightarrow>
                         if c \<noteq> 0
                         then \<lparr>stderr = errs st @ [lit ''Index validation failed.''],
                               stdout = [], ending = Exit c\<rparr>
                         else \<lparr>stderr = errs st, stdout = [lit ''Index validation passed.''],
                               ending = Exit c\<rparr>
                     | None \<Rightarrow>
                         \<lparr>stderr = errs st, stdout = [lit ''Index validation passed.''],
                          ending = Exit 0\<rparr>))
           | _ \<Rightarrow>
               \<lparr>stderr = errs (fail (lit ''index.json must be an array of entries'') initial),
                stdout = [], ending = Exit 1\<rparr>))"

section \<open>scripts/validate-pack.sh\<close>

text \<open>
  The wrapper's arguments are the shell's positional parameters. \<open>corsair\<close> is the
  external pack content validator: given its arguments it writes what it writes and leaves
  an exit status, which is all the wrapper passes on. The last command of the script is
  the call, so its status is the script's (with \<open>set -e\<close> as without).
\<close>

record sh_outcome =
  sh_stderr :: "string list"
  sh_status :: nat

definition validate_pack :: "(string list \<Rightarrow> nat) \<Rightarrow> string list \<Rightarrow> sh_outcome" where
  "validate_pack corsair args =
     (if length args < 1
      then \<lparr>sh_stderr = [''Usage: scripts/validate-pack.sh <pack.json>''], sh_status = 2\<rparr>
      else \<lparr>sh_stderr = [],
            sh_status = corsair [''mappings'', ''validate'', ''--file'', hd args]\<rparr>)"

section \<open>The lines of a run, check by check\<close>

text \<open>
  The definitions of this section list, check by check and in the order of the
  specification, the lines that the loop above writes. A check whose string coercion
  throws has no result (\<open>None\<close>). Two lists are built from the checks. \<open>report\<close> is
  what the code writes: it ends at the first check that throws, as the loop does.
  \<open>full_report\<close> is what the specification describes: the violations of every check of
  every entry, with no cut. The two agree on an index where no coercion throws.
\<close>

text \<open>\<open>Array.isArray\<close>.\<close>

fun is_array :: "json \<Rightarrow> bool" where
  "is_array (JArr xs) = True"
| "is_array v = False"

text \<open>The values that pass the guard of the entry loop: truthy and of type \<open>object\<close>.\<close>

fun is_container :: "json \<Rightarrow> bool" where
  "is_container (JArr xs) = True"
| "is_container (JObj kvs) = True"
| "is_container v = False"

text \<open>The violation of one check: none when the check holds.\<close>

definition flag :: "bool \<Rightarrow> jsstring \<Rightarrow> jsstring list" where
  "flag ok message = (if ok then [] else [message])"

definition required_messages :: "jsstring \<Rightarrow> json \<Rightarrow> jsstring list" where
  "required_messages pre entry =
     concat (map (\<lambda>key. flag (isNonEmptyString (field entry key))
                          (pre @ lit ''.'' @ key @ lit '' must be a non-empty string''))
               requiredStrings)"

text \<open>
  Steps 2 to 7, in the order of the specification. A check whose coercion throws has no
  result (\<open>None\<close>).
\<close>

definition field_checks :: "runtime \<Rightarrow> nat \<Rightarrow> json \<Rightarrow> jsstring list option list" where
  "field_checks rt i entry =
     (let pre = entry_prefix i in
      [Some (required_messages pre entry),
       Some (flag (assertArrayOfStrings (field entry (lit ''frameworks'')))
               (pre @ lit ''.frameworks must be a non-empty string array'')),
       Some (flag (assertArrayOfStrings (field entry (lit ''mappingIds'')))
               (pre @ lit ''.mappingIds must be a non-empty string array'')),
       Some (flag (isHttpsUrl rt (field entry (lit ''packUrl'')))
               (pre @ lit ''.packUrl must be an https URL'')),
       Some (flag (isHttpsUrl rt (field entry (lit ''publicKeyUrl'')))
               (pre @ lit ''.publicKeyUrl must be an https URL'')),
       Some (flag (isSha256 (field entry (lit ''sha256'')))
               (pre @ lit ''.sha256 must be a 64-char hex string'')),
       map_option
         (\<lambda>src. flag (src \<in> allowedSources)
                  (pre @ lit ''.source must be one of: vendor, community, internal''))
         (to_text (field entry (lit ''source''))),
       Some (flag (isIsoDate rt (field entry (lit ''createdAt'')))
               (pre @ lit ''.createdAt must be ISO date YYYY-MM-DD''))])"

definition duplicate_message :: "nat \<Rightarrow> jsstring \<Rightarrow> jsstring" where
  "duplicate_message i key = entry_prefix i @ lit '' duplicates id+version '' @ key"

text \<open>Step 8, against the identity keys \<open>sn\<close> seen so far.\<close>

definition duplicate_check :: "nat \<Rightarrow> json \<Rightarrow> jsstring set \<Rightarrow> jsstring list option" where
  "duplicate_check i entry sn =
     map_option (\<lambda>key. flag (key \<notin> sn) (duplicate_message i key)) (entry_key entry)"

definition checks_in_order ::
  "runtime \<Rightarrow> nat \<Rightarrow> json \<Rightarrow> jsstring set \<Rightarrow> jsstring list option list" where
  "checks_in_order rt i entry sn =
     (if is_container entry
      then field_checks rt i entry @ [duplicate_check i entry sn]
      else [Some [entry_prefix i @ lit '' must be an object'']])"

text \<open>
  The lines of a list of checks as the loop writes them: those of the checks before the
  first one that throws. The checks after it are never made.
\<close>

fun emitted :: "'a list option list \<Rightarrow> 'a list" where
  "emitted [] = []"
| "emitted (None # rest) = []"
| "emitted (Some ms # rest) = ms @ emitted rest"

definition entry_messages :: "runtime \<Rightarrow> nat \<Rightarrow> json \<Rightarrow> jsstring set \<Rightarrow> jsstring list" where
  "entry_messages rt i entry sn = emitted (checks_in_order rt i entry sn)"

text \<open>An entry throws when it reaches a coercion that does.\<close>

definition entry_throws :: "json \<Rightarrow> bool" where
  "entry_throws entry \<longleftrightarrow>
     is_container entry
     \<and> (to_text (field entry (lit ''source'')) = None \<or> entry_key entry = None)"

definition seen_after :: "json \<Rightarrow> jsstring set \<Rightarrow> jsstring set" where
  "seen_after entry sn =
     (if is_container entry
      then (case entry_key entry of Some key \<Rightarrow> insert key sn | None \<Rightarrow> sn)
      else sn)"

text \<open>
  The lines the loop writes for the entries from position \<open>i\<close> on, in entry order: the
  list ends with the first entry that throws.
\<close>

fun report :: "runtime \<Rightarrow> nat \<Rightarrow> json list \<Rightarrow> jsstring set \<Rightarrow> jsstring list" where
  "report rt i [] sn = []"
| "report rt i (entry # rest) sn =
     entry_messages rt i entry sn
     @ (if entry_throws entry then [] else report rt (Suc i) rest (seen_after entry sn))"

text \<open>
  The violations of every check of every entry, in entry order and check order, as the
  specification has them reported. A check without a result contributes none.
\<close>

fun violations_of :: "'a list option \<Rightarrow> 'a list" where
  "violations_of None = []"
| "violations_of (Some ms) = ms"

definition all_entry_messages ::
  "runtime \<Rightarrow> nat \<Rightarrow> json \<Rightarrow> jsstring set \<Rightarrow> jsstring list" where
  "all_entry_messages rt i entry sn = concat (map violations_of (checks_in_order rt i entry sn))"

fun full_report :: "runtime \<Rightarrow> nat \<Rightarrow> json list \<Rightarrow> jsstring set \<Rightarrow> jsstring list" where
  "full_report rt i [] sn = []"
| "full_report rt i (entry # rest) sn =
     all_entry_messages rt i entry sn @ full_report rt (Suc i) rest (seen_after entry sn)"

text \<open>The violation lines the entry loop writes for an index.\<close>

definition violations :: "runtime \<Rightarrow> json list \<Rightarrow> jsstring list" where
  "violations rt index = errs (state_of (entries_loop rt 0 index initial))"

fun threw :: "flow \<Rightarrow> bool" where
  "threw (Thrown st) = True"
| "threw (Normal st) = False"

text \<open>
  The values whose string coercion throws: an object with a member named \<open>toString\<close>,
  or an array that holds such a value.
\<close>

fun unprintable :: "json \<Rightarrow> bool" where
  "unprintable (JObj kvs) = (own_property kvs (lit ''toString'') \<noteq> None)"
| "unprintable (JArr xs) = (\<exists>x\<in>set xs. unprintable x)"
| "unprintable v = False"

text \<open>
  The identity keys that a stretch of entries adds to \<open>seen\<close>, and the link that the
  script keeps between \<open>process.exitCode\<close> and the lines written so far.
\<close>

definition keys_of :: "json list \<Rightarrow> jsstring set" where
  "keys_of es = {k. \<exists>e\<in>set es. is_container e \<and> entry_key e = Some k}"

definition consistent :: "state \<Rightarrow> bool" where
  "consistent st \<longleftrightarrow> exitCode st = (if errs st = [] then None else Some 1)"

section \<open>A runtime for concrete runs\<close>

text \<open>
  Modelled from the spec: the \<open>Date\<close> constructor of the runtime, which the repository
  calls and does not define. The specification asks for a string that "denotes a calendar
  date constructible as midnight UTC" and gives \<open>2024-02-30\<close> and \<open>2024-13-40\<close> as
  dates that are not: a month from 1 to 12 and a day that the month has, in the Gregorian
  calendar. The script only passes strings of the shape \<open>YYYY-MM-DDT00:00:00Z\<close>. A
  runtime can be more lenient (a day up to 31 in any month, rolled over into the next):
  the general lemmas and theorems below are stated for every runtime, and this one only
  serves concrete runs.
\<close>

definition digit_value :: "nat \<Rightarrow> nat" where
  "digit_value c = c - 48"

definition number_of_digits :: "jsstring \<Rightarrow> nat" where
  "number_of_digits s = foldl (\<lambda>n c. 10 * n + digit_value c) 0 s"

definition leap_year :: "nat \<Rightarrow> bool" where
  "leap_year y \<longleftrightarrow> (y mod 4 = 0 \<and> y mod 100 \<noteq> 0) \<or> y mod 400 = 0"

definition days_in_month :: "nat \<Rightarrow> nat \<Rightarrow> nat" where
  "days_in_month y m =
     (if m = 2 then (if leap_year y then 29 else 28)
      else if m \<in> {4, 6, 9, 11} then 30
      else 31)"

definition calendar_date_time :: "jsstring \<Rightarrow> bool" where
  "calendar_date_time s \<longleftrightarrow>
     matches_date (take 10 s) \<and> drop 10 s = lit ''T00:00:00Z''
     \<and> (let y = number_of_digits (take 4 s);
             m = number_of_digits (take 2 (drop 5 s));
             d = number_of_digits (take 2 (drop 8 s))
         in 1 \<le> m \<and> m \<le> 12 \<and> 1 \<le> d \<and> d \<le> days_in_month y m)"

text \<open>
  Modelled from the spec: the \<open>URL\<close> constructor of the runtime, reduced to the two
  shapes the specification names: a text that starts with \<open>https://\<close> or \<open>http://\<close>
  and goes on with a host parses, with that scheme as its protocol; any other text fails
  to parse. The concrete runs below never depend on it.
\<close>

definition scheme_protocol :: "jsstring \<Rightarrow> jsstring option" where
  "scheme_protocol s =
     (if take 8 s = lit ''https://'' \<and> 8 < length s \<and> s ! 8 \<noteq> 47 then Some (lit ''https:'')
      else if take 7 s = lit ''http://'' \<and> 7 < length s \<and> s ! 7 \<noteq> 47 then Some (lit ''http:'')
      else None)"

definition sample_runtime :: runtime where
  "sample_runtime = \<lparr>url_protocol = scheme_protocol, date_is_valid = calendar_date_time\<rparr>"

text \<open>A pack content validator that accepts \<open>pack.json\<close> and rejects every other file.\<close>

definition sample_corsair :: "string list \<Rightarrow> nat" where
  "sample_corsair args =
     (if args = [''mappings'', ''validate'', ''--file'', ''pack.json''] then 0 else 1)"

section \<open>How the loop moves the state\<close>

lemma errs_fail [simp]: "errs (fail m st) = errs st @ [m]"
  by (simp add: fail_def)
lemma seen_fail [simp]: "seen (fail m st) = seen st"
  by (simp add: fail_def)
lemma exitCode_fail [simp]: "exitCode (fail m st) = Some 1"
  by (simp add: fail_def)

lemma errs_check [simp]: "errs (check ok m st) = errs st @ flag ok m"
  by (simp add: check_def flag_def)
lemma seen_check [simp]: "seen (check ok m st) = seen st"
  by (simp add: check_def)
lemma foldl_check_errs:
  "errs (foldl (\<lambda>s key. check (p key) (g key) s) st ks)
     = errs st @ concat (map (\<lambda>key. flag (p key) (g key)) ks)"
  by (induction ks arbitrary: st) simp_all

lemma foldl_check_seen:
  "seen (foldl (\<lambda>s key. check (p key) (g key) s) st ks) = seen st"
  by (induction ks arbitrary: st) simp_all

lemma errs_required_checks [simp]:
  "errs (required_checks pre e st) = errs st @ required_messages pre e"
  unfolding required_checks_def required_messages_def by (rule foldl_check_errs)

lemma seen_required_checks [simp]: "seen (required_checks pre e st) = seen st"
  unfolding required_checks_def by (rule foldl_check_seen)

lemma guard_iff: "(\<not> truthy e \<or> typeof e \<noteq> lit ''object'') \<longleftrightarrow> \<not> is_container e"
  by (cases e) (simp_all add: lit_def)

lemma validate_entry_other:
  "\<not> is_container e \<Longrightarrow>
   validate_entry rt i e st = Normal (fail (entry_prefix i @ lit '' must be an object'') st)"
  using guard_iff [of e] by (simp add: validate_entry_def Let_def)

lemma threw_validate_entry: "threw (validate_entry rt i e st) \<longleftrightarrow> entry_throws e"
proof (cases "is_container e")
  case False
  then show ?thesis by (simp add: validate_entry_other entry_throws_def)
next
  case True
  then have g: "\<not> (\<not> truthy e \<or> typeof e \<noteq> lit ''object'')" using guard_iff [of e] by simp
  show ?thesis using True
    by (simp only: validate_entry_def Let_def g if_False entry_throws_def)
       (auto split: option.splits)
qed

lemma errs_validate_entry:
  "errs (state_of (validate_entry rt i e st)) = errs st @ entry_messages rt i e (seen st)"
proof (cases "is_container e")
  case False
  then show ?thesis by (simp add: validate_entry_other entry_messages_def checks_in_order_def)
next
  case True
  then have g: "\<not> (\<not> truthy e \<or> typeof e \<noteq> lit ''object'')" using guard_iff [of e] by simp
  show ?thesis using True
    by (simp only: validate_entry_def Let_def g if_False)
       (auto simp: entry_messages_def checks_in_order_def field_checks_def Let_def
          duplicate_check_def duplicate_message_def split: option.splits)
qed

lemma seen_validate_entry:
  "\<not> entry_throws e \<Longrightarrow> seen (state_of (validate_entry rt i e st)) = seen_after e (seen st)"
proof (cases "is_container e")
  case False
  then show ?thesis by (simp add: validate_entry_other seen_after_def)
next
  case True
  assume nt: "\<not> entry_throws e"
  from True have g: "\<not> (\<not> truthy e \<or> typeof e \<noteq> lit ''object'')" using guard_iff [of e] by simp
  show ?thesis using True nt
    by (simp only: validate_entry_def Let_def g if_False)
       (auto simp: seen_after_def entry_throws_def split: option.splits)
qed


lemma consistent_initial: "consistent initial"
  by (simp add: consistent_def initial_def)

lemma consistent_fail: "consistent (fail m st)"
  by (simp add: consistent_def)

lemma consistent_check: "consistent st \<Longrightarrow> consistent (check ok m st)"
  by (simp add: check_def consistent_fail)

lemma consistent_foldl_check:
  "consistent st \<Longrightarrow> consistent (foldl (\<lambda>s key. check (p key) (g key) s) st ks)"
  by (induction ks arbitrary: st) (simp_all add: consistent_check)

lemma consistent_required_checks:
  "consistent st \<Longrightarrow> consistent (required_checks pre e st)"
  unfolding required_checks_def by (rule consistent_foldl_check)

lemma consistent_seen_update: "consistent st \<Longrightarrow> consistent (st\<lparr>seen := sn\<rparr>)"
  by (simp add: consistent_def)

lemma consistent_validate_entry:
  assumes "consistent st"
  shows "consistent (state_of (validate_entry rt i e st))"
proof (cases "is_container e")
  case False
  then show ?thesis by (simp add: validate_entry_other consistent_fail)
next
  case True
  then have g: "\<not> (\<not> truthy e \<or> typeof e \<noteq> lit ''object'')" using guard_iff [of e] by simp
  show ?thesis using assms
    by (simp only: validate_entry_def Let_def g if_False)
       (auto split: option.splits
          intro!: consistent_seen_update consistent_check consistent_required_checks)
qed

subsection \<open>The loop\<close>

lemma loop_errs:
  "errs (state_of (entries_loop rt i es st)) = errs st @ report rt i es (seen st)"
proof (induction es arbitrary: i st)
  case Nil
  then show ?case by simp
next
  case (Cons e es)
  show ?case
  proof (cases "validate_entry rt i e st")
    case (Normal s)
    then have nt: "\<not> entry_throws e"
      using threw_validate_entry [of rt i e st] by simp
    have "errs s = errs st @ entry_messages rt i e (seen st)"
      using errs_validate_entry [of rt i e st] Normal by simp
    moreover have "seen s = seen_after e (seen st)"
      using seen_validate_entry [OF nt, of rt i st] Normal by simp
    ultimately show ?thesis using Normal nt Cons.IH [of "Suc i" s] by simp
  next
    case (Thrown s)
    then have t: "entry_throws e"
      using threw_validate_entry [of rt i e st] by simp
    have "errs s = errs st @ entry_messages rt i e (seen st)"
      using errs_validate_entry [of rt i e st] Thrown by simp
    then show ?thesis using Thrown t by simp
  qed
qed

lemma loop_threw: "threw (entries_loop rt i es st) \<longleftrightarrow> (\<exists>e\<in>set es. entry_throws e)"
proof (induction es arbitrary: i st)
  case Nil
  then show ?case by simp
next
  case (Cons e es)
  show ?case
  proof (cases "validate_entry rt i e st")
    case (Normal s)
    then have "\<not> entry_throws e"
      using threw_validate_entry [of rt i e st] by simp
    then show ?thesis using Normal Cons.IH [of "Suc i" s] by simp
  next
    case (Thrown s)
    then have "entry_throws e"
      using threw_validate_entry [of rt i e st] by simp
    then show ?thesis using Thrown by simp
  qed
qed

lemma loop_consistent:
  "consistent st \<Longrightarrow> consistent (state_of (entries_loop rt i es st))"
proof (induction es arbitrary: i st)
  case Nil
  then show ?case by simp
next
  case (Cons e es)
  have c: "consistent (state_of (validate_entry rt i e st))"
    using Cons.prems by (rule consistent_validate_entry)
  show ?case
  proof (cases "validate_entry rt i e st")
    case (Normal s)
    then show ?thesis using c Cons.IH [of s "Suc i"] by simp
  next
    case (Thrown s)
    then show ?thesis using c by simp
  qed
qed


lemma seen_after_keys: "seen_after e sn = sn \<union> keys_of [e]"
  by (auto simp: seen_after_def keys_of_def split: option.splits)

lemma keys_of_Cons: "keys_of (e # es) = keys_of [e] \<union> keys_of es"
  by (auto simp: keys_of_def)

lemma loop_seen:
  "\<not> threw (entries_loop rt i es st) \<Longrightarrow>
   seen (state_of (entries_loop rt i es st)) = seen st \<union> keys_of es"
proof (induction es arbitrary: i st)
  case Nil
  then show ?case by (simp add: keys_of_def)
next
  case (Cons e es)
  show ?case
  proof (cases "validate_entry rt i e st")
    case (Normal s)
    then have nt: "\<not> entry_throws e"
      using threw_validate_entry [of rt i e st] by simp
    have s: "seen s = seen st \<union> keys_of [e]"
      using seen_validate_entry [OF nt, of rt i st] Normal by (simp add: seen_after_keys)
    have "\<not> threw (entries_loop rt (Suc i) es s)" using Cons.prems Normal by simp
    then have "seen (state_of (entries_loop rt (Suc i) es s)) = seen s \<union> keys_of es"
      by (rule Cons.IH)
    then show ?thesis using Normal s keys_of_Cons [of e es] by auto
  next
    case (Thrown s)
    then show ?thesis using Cons.prems by simp
  qed
qed

lemma loop_append:
  "entries_loop rt i (xs @ ys) st =
     (case entries_loop rt i xs st of
        Thrown s \<Rightarrow> Thrown s
      | Normal s \<Rightarrow> entries_loop rt (i + length xs) ys s)"
  by (induction xs arbitrary: i st) (auto split: flow.splits)

lemma loop_errs_prefix:
  "prefix (errs (state_of (entries_loop rt i xs st)))
          (errs (state_of (entries_loop rt i (xs @ ys) st)))"
proof (cases "entries_loop rt i xs st")
  case (Normal s)
  then show ?thesis by (simp add: loop_append loop_errs [of rt _ ys s])
next
  case (Thrown s)
  then show ?thesis by (simp add: loop_append)
qed

subsection \<open>The whole run\<close>

lemma run_array:
  "validate_index rt path (Parsed (JArr idx)) =
     (if threw (entries_loop rt 0 idx initial)
      then \<lparr>stderr = violations rt idx, stdout = [], ending = Uncaught_TypeError\<rparr>
      else if violations rt idx = []
      then \<lparr>stderr = [], stdout = [lit ''Index validation passed.''], ending = Exit 0\<rparr>
      else \<lparr>stderr = violations rt idx @ [lit ''Index validation failed.''],
            stdout = [], ending = Exit 1\<rparr>)"
proof (cases "entries_loop rt 0 idx initial")
  case (Thrown s)
  then show ?thesis by (simp add: validate_index_def violations_def)
next
  case (Normal s)
  have "consistent s"
    using loop_consistent [OF consistent_initial, of rt 0 idx] Normal by simp
  then show ?thesis using Normal
    by (auto simp: validate_index_def violations_def consistent_def)
qed

lemma violations_report: "violations rt idx = report rt 0 idx {}"
  by (simp add: violations_def loop_errs initial_def)

lemma no_throw_run:
  "ending (validate_index rt path (Parsed (JArr index))) \<noteq> Uncaught_TypeError
   \<longleftrightarrow> (\<forall>e\<in>set index. \<not> entry_throws e)"
  using loop_threw [of rt 0 index initial] by (simp add: run_array)

subsection \<open>The messages of one entry\<close>

lemma emitted_append:
  "None \<notin> set xs \<Longrightarrow> emitted (xs @ ys) = emitted xs @ emitted ys"
  by (induction xs rule: emitted.induct) simp_all

lemma field_checks_complete:
  "to_text (field e (lit ''source'')) \<noteq> None \<Longrightarrow> None \<notin> set (field_checks rt i e)"
  by (auto simp: field_checks_def Let_def)

lemma entry_messages_container:
  assumes "is_container e" and "to_text (field e (lit ''source'')) \<noteq> None"
    and "entry_key e = Some k"
  shows "entry_messages rt i e sn
           = emitted (field_checks rt i e) @ flag (k \<notin> sn) (duplicate_message i k)"
  using assms
  by (simp add: entry_messages_def checks_in_order_def emitted_append field_checks_complete
        duplicate_check_def)

lemma normal_validate_entry:
  "\<not> entry_throws e \<Longrightarrow> \<exists>st'. validate_entry rt i e st = Normal st'"
  using threw_validate_entry [of rt i e st] by (cases "validate_entry rt i e st") simp_all

lemma emitted_mem: "m \<in> set (emitted cs) \<Longrightarrow> \<exists>ms. Some ms \<in> set cs \<and> m \<in> set ms"
  by (induction cs rule: emitted.induct) auto

lemma lit_dot: "lit (CHR ''.'' # s) = 46 # lit s"
  by (simp add: lit_def)

lemma flag_mem: "m \<in> set (flag ok x) \<Longrightarrow> m = x"
  by (simp add: flag_def split: if_splits)

lemma required_messages_shape:
  assumes "m \<in> set (required_messages pre e)"
  shows "\<exists>r. m = pre @ 46 # r"
proof -
  obtain key where "m \<in> set (flag (isNonEmptyString (field e key))
                          (pre @ lit ''.'' @ key @ lit '' must be a non-empty string''))"
    using assms unfolding required_messages_def by auto
  then have "m = pre @ lit ''.'' @ key @ lit '' must be a non-empty string''"
    by (rule flag_mem)
  then show ?thesis by (simp add: lit_dot)
qed

lemma Some_eq_map_option: "(Some y = map_option f x) = (\<exists>z. x = Some z \<and> y = f z)"
  by (cases x) auto

lemma field_checks_shape:
  assumes "Some ms \<in> set (field_checks rt i e)" and "m \<in> set ms"
  shows "\<exists>r. m = entry_prefix i @ 46 # r"
  using assms unfolding field_checks_def Let_def lit_dot
  by (simp only: set_simps insert_iff empty_iff option.inject)
     (elim disjE; auto simp: Some_eq_map_option dest!: flag_mem required_messages_shape)

lemma entry_messages_shape:
  assumes "m \<in> set (entry_messages rt i e sn)"
  shows "(\<exists>r. m = entry_prefix i @ 46 # r)
       \<or> m = entry_prefix i @ lit '' must be an object''
       \<or> (is_container e \<and> (\<exists>k. entry_key e = Some k \<and> k \<in> sn \<and> m = duplicate_message i k))"
proof (cases "is_container e")
  case False
  then show ?thesis using assms by (simp add: entry_messages_def checks_in_order_def)
next
  case True
  then obtain ms where ms: "Some ms \<in> set (field_checks rt i e) \<or> Some ms = duplicate_check i e sn"
    and m: "m \<in> set ms"
    using assms emitted_mem [of m "checks_in_order rt i e sn"]
    by (auto simp: entry_messages_def checks_in_order_def)
  from ms show ?thesis
  proof
    assume "Some ms \<in> set (field_checks rt i e)"
    then show ?thesis using m field_checks_shape by blast
  next
    assume "Some ms = duplicate_check i e sn"
    then obtain k where "entry_key e = Some k" and "ms = flag (k \<notin> sn) (duplicate_message i k)"
      by (auto simp: duplicate_check_def Some_eq_map_option)
    then show ?thesis using m True
      by (auto simp: flag_def split: if_splits)
  qed
qed

lemma created_at_message_emitted:
  assumes "is_container e" and "\<not> entry_throws e"
    and "\<not> isIsoDate rt (field e (lit ''createdAt''))"
  shows "entry_prefix i @ lit ''.createdAt must be ISO date YYYY-MM-DD''
           \<in> set (entry_messages rt i e sn)"
proof -
  obtain src k where s: "to_text (field e (lit ''source'')) = Some src" and k: "entry_key e = Some k"
    using assms(1,2) by (auto simp: entry_throws_def)
  have "entry_messages rt i e sn
          = emitted (field_checks rt i e) @ flag (k \<notin> sn) (duplicate_message i k)"
    using assms(1) k s by (simp add: entry_messages_container)
  moreover have "entry_prefix i @ lit ''.createdAt must be ISO date YYYY-MM-DD''
                   \<in> set (emitted (field_checks rt i e))"
    using assms(3) s by (simp add: field_checks_def Let_def flag_def)
  ultimately show ?thesis by simp
qed

lemma field_Some_container: "field e key = Some v \<Longrightarrow> is_container e"
  by (cases e) simp_all

subsection \<open>Positions and their prefixes\<close>

lemma decimal_nonempty: "decimal n \<noteq> []"
  by (subst decimal.simps) simp

lemma decimal_digits: "c \<in> set (decimal n) \<Longrightarrow> 48 \<le> c \<and> c \<le> 57"
proof (induction n rule: decimal.induct)
  case (1 n)
  show ?case
  proof (cases "n < 10")
    case True
    then show ?thesis using "1.prems" by (subst (asm) decimal.simps) simp
  next
    case False
    then have "c \<in> set (decimal (n div 10)) \<or> c = 48 + n mod 10"
      using "1.prems" by (subst (asm) decimal.simps) auto
    then show ?thesis
    proof
      assume "c \<in> set (decimal (n div 10))"
      then show ?thesis using "1.IH" False by simp
    next
      assume "c = 48 + n mod 10"
      moreover have "n mod 10 < 10" by simp
      ultimately show ?thesis by linarith
    qed
  qed
qed

lemma decimal_inj: "decimal a = decimal b \<Longrightarrow> a = b"
proof (induction a arbitrary: b rule: decimal.induct)
  case (1 n)
  show ?case
  proof (cases "n < 10")
    case small: True
    show ?thesis
    proof (cases "b < 10")
      case True
      then show ?thesis using small "1.prems"
        by (subst (asm) decimal.simps, subst (asm) (2) decimal.simps) simp
    next
      case False
      have "decimal n = [48 + n]" using small by (subst decimal.simps) simp
      moreover have "decimal b = decimal (b div 10) @ [48 + b mod 10]"
        using False by (subst decimal.simps) simp
      ultimately have "decimal (b div 10) = []" using "1.prems" by simp
      then show ?thesis using decimal_nonempty by blast
    qed
  next
    case big: False
    have dn: "decimal n = decimal (n div 10) @ [48 + n mod 10]"
      using big by (subst decimal.simps) simp
    show ?thesis
    proof (cases "b < 10")
      case True
      then have "decimal b = [48 + b]" by (subst decimal.simps) simp
      then have "decimal (n div 10) = []" using dn "1.prems" by simp
      then show ?thesis using decimal_nonempty by blast
    next
      case False
      then have "decimal b = decimal (b div 10) @ [48 + b mod 10]"
        by (subst decimal.simps) simp
      then have "decimal (n div 10) = decimal (b div 10)" and m: "n mod 10 = b mod 10"
        using dn "1.prems" by simp_all
      then have "n div 10 = b div 10" using "1.IH" big by blast
      then show ?thesis using m by (metis div_mult_mod_eq)
    qed
  qed
qed

lemma separated_eq:
  "c \<notin> set a \<Longrightarrow> c \<notin> set b \<Longrightarrow> a @ c # x = b @ c # y \<Longrightarrow> a = b \<and> x = y"
proof (induction a arbitrary: b)
  case Nil
  then show ?case by (cases b) auto
next
  case (Cons h t)
  then show ?case by (cases b) auto
qed

lemma entry_prefix_inj:
  assumes "entry_prefix i @ x = entry_prefix j @ y"
  shows "i = j \<and> x = y"
proof -
  have "decimal i @ 93 # x = decimal j @ 93 # y"
    using assms by (simp add: entry_prefix_def lit_def)
  moreover have "93 \<notin> set (decimal i)" "93 \<notin> set (decimal j)"
    using decimal_digits by fastforce+
  ultimately have "decimal i = decimal j \<and> x = y" by (rule separated_eq [rotated 2])
  then show ?thesis using decimal_inj by blast
qed

lemma duplicate_message_unfold:
  "duplicate_message i k = entry_prefix i @ 32 # lit ''duplicates id+version '' @ k"
  by (simp add: duplicate_message_def lit_def)

lemma duplicate_message_only_from_check:
  assumes "duplicate_message j k \<in> set (entry_messages rt i e sn)"
  shows "i = j \<and> is_container e \<and> entry_key e = Some k \<and> k \<in> sn"
  using entry_messages_shape [OF assms]
proof (elim disjE exE conjE)
  fix r assume "duplicate_message j k = entry_prefix i @ 46 # r"
  then have "j = i \<and> 32 # lit ''duplicates id+version '' @ k = 46 # r"
    unfolding duplicate_message_unfold by (rule entry_prefix_inj)
  then show ?thesis by simp
next
  assume "duplicate_message j k = entry_prefix i @ lit '' must be an object''"
  then have "j = i \<and> 32 # lit ''duplicates id+version '' @ k = lit '' must be an object''"
    unfolding duplicate_message_unfold by (rule entry_prefix_inj)
  then show ?thesis by (simp add: lit_def)
next
  fix k' assume c: "is_container e" and k': "entry_key e = Some k'" "k' \<in> sn"
    and "duplicate_message j k = duplicate_message i k'"
  then have "j = i \<and> 32 # lit ''duplicates id+version '' @ k = 32 # lit ''duplicates id+version '' @ k'"
    unfolding duplicate_message_unfold by (intro entry_prefix_inj)
  then show ?thesis using c k' by simp
qed

lemma failed_line_is_no_duplicate: "duplicate_message j k \<noteq> lit ''Index validation failed.''"
  by (simp add: duplicate_message_def entry_prefix_def lit_def)

subsection \<open>Where an entry's messages stand in the report\<close>

lemma keys_of_Nil: "keys_of [] = {}"
  by (simp add: keys_of_def)

lemma report_nth:
  "\<forall>e\<in>set es. \<not> entry_throws e \<Longrightarrow> j < length es \<Longrightarrow>
   set (entry_messages rt (i + j) (es ! j) (sn \<union> keys_of (take j es))) \<subseteq> set (report rt i es sn)"
proof (induction es arbitrary: i j sn)
  case Nil
  then show ?case by simp
next
  case (Cons e es)
  show ?case
  proof (cases j)
    case 0
    then show ?thesis by (simp add: keys_of_Nil)
  next
    case (Suc j')
    have "set (entry_messages rt (Suc i + j') (es ! j') (seen_after e sn \<union> keys_of (take j' es)))
            \<subseteq> set (report rt (Suc i) es (seen_after e sn))"
      using Cons.prems Suc by (intro Cons.IH) simp_all
    moreover have "seen_after e sn \<union> keys_of (take j' es) = sn \<union> keys_of (take j (e # es))"
      using Suc keys_of_Cons [of e "take j' es"] by (auto simp: seen_after_keys)
    moreover have "\<not> entry_throws e" using Cons.prems by simp
    ultimately show ?thesis using Suc by (simp add: le_supI2)
  qed
qed

lemma report_mem:
  "m \<in> set (report rt i es sn) \<Longrightarrow>
   \<exists>j<length es. m \<in> set (entry_messages rt (i + j) (es ! j) (sn \<union> keys_of (take j es)))"
proof (induction es arbitrary: i sn)
  case Nil
  then show ?case by simp
next
  case (Cons e es)
  show ?case
  proof (cases "m \<in> set (entry_messages rt i e sn)")
    case True
    then have "m \<in> set (entry_messages rt (i + 0) ((e # es) ! 0) (sn \<union> keys_of (take 0 (e # es))))"
      by (simp add: keys_of_Nil)
    then show ?thesis by blast
  next
    case False
    then have "m \<in> set (report rt (Suc i) es (seen_after e sn))"
      using Cons.prems by (auto split: if_splits)
    then obtain j where j: "j < length es"
      and m: "m \<in> set (entry_messages rt (Suc i + j) (es ! j) (seen_after e sn \<union> keys_of (take j es)))"
      using Cons.IH by blast
    have "seen_after e sn \<union> keys_of (take j es) = sn \<union> keys_of (take (Suc j) (e # es))"
      using keys_of_Cons [of e "take j es"] by (auto simp: seen_after_keys)
    then have "m \<in> set (entry_messages rt (i + Suc j) ((e # es) ! Suc j)
                 (sn \<union> keys_of (take (Suc j) (e # es))))"
      using m by simp
    moreover have "Suc j < length (e # es)" using j by simp
    ultimately show ?thesis by blast
  qed
qed

lemma keys_of_take:
  "k \<in> keys_of (take j es) \<longleftrightarrow>
   (\<exists>i. i < j \<and> i < length es \<and> is_container (es ! i) \<and> entry_key (es ! i) = Some k)"
proof
  assume "k \<in> keys_of (take j es)"
  then obtain e where e: "e \<in> set (take j es)" "is_container e" "entry_key e = Some k"
    unfolding keys_of_def by blast
  then obtain i where "i < length (take j es)" "take j es ! i = e"
    by (meson in_set_conv_nth)
  then show "\<exists>i. i < j \<and> i < length es \<and> is_container (es ! i) \<and> entry_key (es ! i) = Some k"
    using e by auto
next
  assume "\<exists>i. i < j \<and> i < length es \<and> is_container (es ! i) \<and> entry_key (es ! i) = Some k"
  then obtain i where i: "i < j" "i < length es" "is_container (es ! i)" "entry_key (es ! i) = Some k"
    by blast
  then have "es ! i \<in> set (take j es)"
    by (metis in_set_conv_nth length_take min_less_iff_conj nth_take)
  then show "k \<in> keys_of (take j es)" using i unfolding keys_of_def by blast
qed

lemma stderr_duplicate:
  "duplicate_message j k \<in> set (stderr (validate_index rt path (Parsed (JArr index))))
   \<longleftrightarrow> duplicate_message j k \<in> set (report rt 0 index {})"
  using failed_line_is_no_duplicate [of j k]
  by (simp add: run_array violations_report)

subsection \<open>Field predicates\<close>

lemma is_space_iff:
  "is_space c \<longleftrightarrow>
     c \<in> {9, 10, 11, 12, 13, 32, 160, 5760, 8232, 8233, 8239, 8287, 12288, 65279}
     \<or> (8192 \<le> c \<and> c \<le> 8202)"
  by (auto simp: is_space_def)

lemma same_fields_same_key:
  "field e (lit ''id'') = field e' (lit ''id'') \<Longrightarrow>
   field e (lit ''version'') = field e' (lit ''version'') \<Longrightarrow> entry_key e = entry_key e'"
  unfolding entry_key_def by (erule ssubst, erule ssubst) (rule refl)

lemma calendar_examples:
  "calendar_date_time (lit ''2024-01-15T00:00:00Z'')
   \<and> calendar_date_time (lit ''2024-02-29T00:00:00Z'')
   \<and> \<not> calendar_date_time (lit ''2024-02-30T00:00:00Z'')
   \<and> \<not> calendar_date_time (lit ''2023-02-29T00:00:00Z'')
   \<and> \<not> calendar_date_time (lit ''2024-13-40T00:00:00Z'')"
  by code_simp

subsection \<open>Coercions that throw\<close>

lemma join_comma_None: "join_comma xs = None \<longleftrightarrow> None \<in> set xs"
  by (induction xs rule: join_comma.induct) (auto split: option.splits)

lemma element_texts_None:
  "None \<in> set (map (\<lambda>x. if x = JNull then Some [] else to_string x) xs)
   \<longleftrightarrow> (\<exists>x\<in>set xs. x \<noteq> JNull \<and> to_string x = None)"
  by (induction xs) auto

lemma to_string_None: "to_string v = None \<longleftrightarrow> unprintable v"
proof (induction v)
  case (JArr xs)
  have "to_string (JArr xs) = None \<longleftrightarrow> (\<exists>x\<in>set xs. x \<noteq> JNull \<and> to_string x = None)"
    by (simp only: to_string.simps join_comma_None element_texts_None)
  also have "\<dots> \<longleftrightarrow> (\<exists>x\<in>set xs. unprintable x)"
  proof (intro bex_cong refl)
    fix x assume "x \<in> set xs"
    then show "(x \<noteq> JNull \<and> to_string x = None) = unprintable x"
      using JArr by (cases "x = JNull") auto
  qed
  finally show ?case by simp
qed simp_all

lemma to_text_None: "to_text v = None \<longleftrightarrow> (\<exists>w. v = Some w \<and> unprintable w)"
  by (cases v) (simp_all add: to_string_None)

lemma entry_key_None:
  "entry_key e = None \<longleftrightarrow>
   to_text (field e (lit ''id'')) = None \<or> to_text (field e (lit ''version'')) = None"
  by (auto simp: entry_key_def split: option.splits)

lemma entry_throws_iff:
  "entry_throws e \<longleftrightarrow>
   (\<exists>w. unprintable w
      \<and> (field e (lit ''source'') = Some w \<or> field e (lit ''id'') = Some w
          \<or> field e (lit ''version'') = Some w))"
  using field_Some_container [of e]
  by (auto simp: entry_throws_def entry_key_None to_text_None)

section \<open>The guard of the entry loop\<close>

text \<open>
  C1, as amended. For every entry that is \<open>null\<close>, a boolean, a number or a string, the
  pass over that entry writes exactly one violation, that the entry must be an object,
  makes no field check and records no identity key. (An array is not among them: it passes
  the guard and is checked field by field.)
\<close>

theorem non_container_entry_one_violation:
  assumes "\<not> is_container entry"
  shows "\<exists>st'. validate_entry rt i entry st = Normal st'
           \<and> errs st' = errs st @ [entry_prefix i @ lit '' must be an object'']
           \<and> seen st' = seen st \<and> exitCode st' = Some 1"
  using assms by (simp add: validate_entry_other)

theorem non_container_entry_one_violation_witness:
  "\<exists>st'. validate_entry sample_runtime 3 JNull initial = Normal st'
           \<and> errs st' = errs initial @ [entry_prefix 3 @ lit '' must be an object'']
           \<and> seen st' = seen initial \<and> exitCode st' = Some 1"
  using non_container_entry_one_violation [of JNull sample_runtime 3 initial] by simp

text \<open>
  The claim as written also names an array among the entries that get the single violation.
  An index whose only entry is the empty array gets the twelve field violations instead,
  and none that says it must be an object.
\<close>

theorem array_entry_is_field_checked:
  "validate_index sample_runtime (lit ''index.json'') (Parsed (JArr [JArr []])) =
     \<lparr>stderr = map lit
        [''index.json[0].id must be a non-empty string'',
         ''index.json[0].tool must be a non-empty string'',
         ''index.json[0].version must be a non-empty string'',
         ''index.json[0].description must be a non-empty string'',
         ''index.json[0].signer must be a non-empty string'',
         ''index.json[0].frameworks must be a non-empty string array'',
         ''index.json[0].mappingIds must be a non-empty string array'',
         ''index.json[0].packUrl must be an https URL'',
         ''index.json[0].publicKeyUrl must be an https URL'',
         ''index.json[0].sha256 must be a 64-char hex string'',
         ''index.json[0].source must be one of: vendor, community, internal'',
         ''index.json[0].createdAt must be ISO date YYYY-MM-DD'',
         ''Index validation failed.''],
      stdout = [], ending = Exit 1\<rparr>"
  by code_simp

section \<open>Duplicate identity keys\<close>

text \<open>
  C2, as amended. In a run that no uncaught exception cuts, for every entry at a position
  \<open>j\<close> that passes the guard and has the key \<open>k\<close> (the text of its \<open>id\<close>, \<open>@\<close>, the text of
  its \<open>version\<close>): the error stream holds the duplicate violation of position \<open>j\<close> exactly
  when an earlier entry that passes the guard has the same key. So the second of two
  entries with the same \<open>id\<close> and \<open>version\<close> values gets the violation, and changing
  \<open>id\<close> or \<open>version\<close> removes it when no earlier key equals the new one.
\<close>

theorem duplicate_violation_iff_key_seen:
  assumes "ending (validate_index rt path (Parsed (JArr index))) \<noteq> Uncaught_TypeError"
    and "j < length index" and "is_container (index ! j)"
    and "entry_key (index ! j) = Some k"
  shows "duplicate_message j k \<in> set (stderr (validate_index rt path (Parsed (JArr index))))
         \<longleftrightarrow> (\<exists>i<j. is_container (index ! i) \<and> entry_key (index ! i) = Some k)"
proof -
  have nt: "\<forall>e\<in>set index. \<not> entry_throws e"
    using assms(1) by (simp add: no_throw_run)
  have src: "to_text (field (index ! j) (lit ''source'')) \<noteq> None"
    using nt assms(2,3) by (auto simp: entry_throws_def)
  have msgs: "entry_messages rt j (index ! j) (keys_of (take j index))
          = emitted (field_checks rt j (index ! j))
            @ flag (k \<notin> keys_of (take j index)) (duplicate_message j k)"
    using assms(3) src assms(4) by (rule entry_messages_container)
  show ?thesis
  proof
    assume "duplicate_message j k \<in> set (stderr (validate_index rt path (Parsed (JArr index))))"
    then have "duplicate_message j k \<in> set (report rt 0 index {})"
      by (simp add: stderr_duplicate)
    then obtain j' where "j' < length index"
      and "duplicate_message j k
             \<in> set (entry_messages rt (0 + j') (index ! j') ({} \<union> keys_of (take j' index)))"
      using report_mem by blast
    then have "j' = j \<and> k \<in> keys_of (take j' index)"
      using duplicate_message_only_from_check [of j k rt j' "index ! j'" "keys_of (take j' index)"]
      by auto
    then show "\<exists>i<j. is_container (index ! i) \<and> entry_key (index ! i) = Some k"
      by (auto simp: keys_of_take)
  next
    assume "\<exists>i<j. is_container (index ! i) \<and> entry_key (index ! i) = Some k"
    then have "k \<in> keys_of (take j index)" using assms(2) by (auto simp: keys_of_take)
    then have "duplicate_message j k
                 \<in> set (entry_messages rt (0 + j) (index ! j) ({} \<union> keys_of (take j index)))"
      using msgs by (simp add: flag_def)
    then have "duplicate_message j k \<in> set (report rt 0 index {})"
      using report_nth [OF nt assms(2), of rt 0 "{}"] by blast
    then show "duplicate_message j k \<in> set (stderr (validate_index rt path (Parsed (JArr index))))"
      by (simp add: stderr_duplicate)
  qed
qed

theorem duplicate_violation_iff_key_seen_witness:
  "duplicate_message 1 (lit ''a@1'')
     \<in> set (stderr (validate_index sample_runtime (lit ''index.json'')
          (Parsed (JArr [JObj [(lit ''id'', JStr (lit ''a'')), (lit ''version'', JStr (lit ''1''))],
                         JObj [(lit ''id'', JStr (lit ''a'')), (lit ''version'', JStr (lit ''1'')),
                               (lit ''tool'', JStr (lit ''other''))]]))))
   \<and> duplicate_message 1 (lit ''b@1'')
     \<notin> set (stderr (validate_index sample_runtime (lit ''index.json'')
          (Parsed (JArr [JObj [(lit ''id'', JStr (lit ''a'')), (lit ''version'', JStr (lit ''1''))],
                         JObj [(lit ''id'', JStr (lit ''b'')), (lit ''version'', JStr (lit ''1''))]]))))"
proof -
  let ?e0 = "JObj [(lit ''id'', JStr (lit ''a'')), (lit ''version'', JStr (lit ''1''))]"
  let ?e1 = "JObj [(lit ''id'', JStr (lit ''a'')), (lit ''version'', JStr (lit ''1'')),
                   (lit ''tool'', JStr (lit ''other''))]"
  let ?e2 = "JObj [(lit ''id'', JStr (lit ''b'')), (lit ''version'', JStr (lit ''1''))]"
  have k0: "entry_key ?e0 = Some (lit ''a@1'')" by code_simp
  have k1: "entry_key ?e1 = Some (lit ''a@1'')" by code_simp
  have k2: "entry_key ?e2 = Some (lit ''b@1'')" by code_simp
  have n1: "ending (validate_index sample_runtime (lit ''index.json'') (Parsed (JArr [?e0, ?e1])))
              \<noteq> Uncaught_TypeError" by code_simp
  have n2: "ending (validate_index sample_runtime (lit ''index.json'') (Parsed (JArr [?e0, ?e2])))
              \<noteq> Uncaught_TypeError" by code_simp
  have a: "duplicate_message 1 (lit ''a@1'')
        \<in> set (stderr (validate_index sample_runtime (lit ''index.json'')
                         (Parsed (JArr [?e0, ?e1]))))
        \<longleftrightarrow> (\<exists>i<1. is_container ([?e0, ?e1] ! i)
                    \<and> entry_key ([?e0, ?e1] ! i) = Some (lit ''a@1''))"
    using k1 by (intro duplicate_violation_iff_key_seen [OF n1]) simp_all
  have b: "duplicate_message 1 (lit ''b@1'')
        \<in> set (stderr (validate_index sample_runtime (lit ''index.json'')
                         (Parsed (JArr [?e0, ?e2]))))
        \<longleftrightarrow> (\<exists>i<1. is_container ([?e0, ?e2] ! i)
                    \<and> entry_key ([?e0, ?e2] ! i) = Some (lit ''b@1''))"
    using k2 by (intro duplicate_violation_iff_key_seen [OF n2]) simp_all
  have "lit ''a@1'' \<noteq> lit ''b@1''" by (simp add: lit_def)
  then show ?thesis using a b k0 by simp
qed

text \<open>
  The claim as written lets any change that makes the pairs of \<open>id\<close> and \<open>version\<close> differ
  remove the violation. The pairs \<open>(a@b, c)\<close> and \<open>(a, b@c)\<close> differ and have the same
  key, so the second entry still gets the duplicate violation.
\<close>

theorem distinct_pairs_can_share_a_key:
  "(JStr (lit ''a@b''), JStr (lit ''c'')) \<noteq> (JStr (lit ''a''), JStr (lit ''b@c''))
   \<and> lit ''index.json[1] duplicates id+version a@b@c''
     \<in> set (stderr (validate_index sample_runtime (lit ''index.json'')
          (Parsed (JArr [JObj [(lit ''id'', JStr (lit ''a@b'')), (lit ''version'', JStr (lit ''c''))],
                         JObj [(lit ''id'', JStr (lit ''a'')),
                               (lit ''version'', JStr (lit ''b@c''))]]))))"
  by code_simp

text \<open>
  C3, as amended. For every entry that passes the guard and whose coercions of \<open>source\<close>,
  \<open>id\<close> and \<open>version\<close> do not throw, the duplicate check runs whatever the field checks
  found: the key is the text of \<open>id\<close>, \<open>@\<close> and the text of \<open>version\<close>; the duplicate
  violation follows the field violations exactly when the key is already in \<open>seen\<close>; and
  the key is in \<open>seen\<close> afterwards. An entry that fails the guard gets its one violation
  and no duplicate check: \<open>seen\<close> stays as it was.
\<close>

theorem duplicate_check_after_guard:
  "(is_container entry \<and> to_text (field entry (lit ''source'')) \<noteq> None
      \<and> to_text (field entry (lit ''id'')) = Some a
      \<and> to_text (field entry (lit ''version'')) = Some b
    \<longrightarrow> (\<exists>st'. validate_entry rt i entry st = Normal st'
           \<and> errs st' = errs st @ emitted (field_checks rt i entry)
                 @ flag (a @ lit ''@'' @ b \<notin> seen st) (duplicate_message i (a @ lit ''@'' @ b))
           \<and> seen st' = insert (a @ lit ''@'' @ b) (seen st)))
   \<and> (\<not> is_container entry
    \<longrightarrow> (\<exists>st'. validate_entry rt i entry st = Normal st'
           \<and> errs st' = errs st @ [entry_prefix i @ lit '' must be an object'']
           \<and> seen st' = seen st))"
proof (intro conjI impI)
  assume h: "is_container entry \<and> to_text (field entry (lit ''source'')) \<noteq> None
      \<and> to_text (field entry (lit ''id'')) = Some a
      \<and> to_text (field entry (lit ''version'')) = Some b"
  then have k: "entry_key entry = Some (a @ lit ''@'' @ b)"
    by (simp add: entry_key_def)
  with h have nt: "\<not> entry_throws entry" by (simp add: entry_throws_def)
  then obtain st' where n: "validate_entry rt i entry st = Normal st'"
    using normal_validate_entry by blast
  have "errs st' = errs st @ entry_messages rt i entry (seen st)"
    using errs_validate_entry [of rt i entry st] n by simp
  moreover have "seen st' = seen_after entry (seen st)"
    using seen_validate_entry [OF nt, of rt i st] n by simp
  ultimately show "\<exists>st'. validate_entry rt i entry st = Normal st'
           \<and> errs st' = errs st @ emitted (field_checks rt i entry)
                 @ flag (a @ lit ''@'' @ b \<notin> seen st) (duplicate_message i (a @ lit ''@'' @ b))
           \<and> seen st' = insert (a @ lit ''@'' @ b) (seen st)"
    using n h k by (simp add: entry_messages_container seen_after_def)
next
  assume "\<not> is_container entry"
  then show "\<exists>st'. validate_entry rt i entry st = Normal st'
           \<and> errs st' = errs st @ [entry_prefix i @ lit '' must be an object'']
           \<and> seen st' = seen st"
    by (simp add: validate_entry_other)
qed

theorem duplicate_check_after_guard_witness:
  "\<exists>st'. validate_entry sample_runtime 1 (JObj [(lit ''id'', JNum (lit ''5''))])
            \<lparr>errs = [], exitCode = None, seen = {lit ''5@undefined''}\<rparr> = Normal st'
         \<and> errs st' = errs \<lparr>errs = [], exitCode = None, seen = {lit ''5@undefined''}\<rparr>
              @ emitted (field_checks sample_runtime 1 (JObj [(lit ''id'', JNum (lit ''5''))]))
              @ flag (lit ''5'' @ lit ''@'' @ lit ''undefined''
                        \<notin> seen \<lparr>errs = [], exitCode = None, seen = {lit ''5@undefined''}\<rparr>)
                  (duplicate_message 1 (lit ''5'' @ lit ''@'' @ lit ''undefined''))
         \<and> seen st' = insert (lit ''5'' @ lit ''@'' @ lit ''undefined'')
                         (seen \<lparr>errs = [], exitCode = None, seen = {lit ''5@undefined''}\<rparr>)"
proof -
  have "is_container (JObj [(lit ''id'', JNum (lit ''5''))])
      \<and> to_text (field (JObj [(lit ''id'', JNum (lit ''5''))]) (lit ''source'')) \<noteq> None
      \<and> to_text (field (JObj [(lit ''id'', JNum (lit ''5''))]) (lit ''id'')) = Some (lit ''5'')
      \<and> to_text (field (JObj [(lit ''id'', JNum (lit ''5''))]) (lit ''version''))
          = Some (lit ''undefined'')"
    by (simp add: lit_def)
  then show ?thesis
    using duplicate_check_after_guard
      [of "JObj [(lit ''id'', JNum (lit ''5''))]" "lit ''5''" "lit ''undefined''" sample_runtime 1
          "\<lparr>errs = [], exitCode = None, seen = {lit ''5@undefined''}\<rparr>"]
    by blast
qed

text \<open>
  The claim as written has the duplicate check run for every entry, also one rejected as
  a whole. Two equal entries that fail the guard would then collide on whatever key they
  get; the loop writes the two guard violations only and records no key.
\<close>

theorem non_container_entries_skip_duplicate_check:
  "entries_loop sample_runtime 0 [JNum (lit ''5''), JNum (lit ''5'')] initial =
     Normal \<lparr>errs = map lit [''index.json[0] must be an object'',
                             ''index.json[1] must be an object''],
             exitCode = Some 1, seen = {}\<rparr>"
  by code_simp

section \<open>An unconstructible date\<close>

text \<open>
  In a run that no uncaught exception cuts, an entry whose \<open>createdAt\<close> matches the
  pattern and is refused by the runtime's \<open>Date\<close> gets the \<open>createdAt\<close> violation, and
  the run leaves with status 1.
\<close>

lemma unconstructible_date_is_reported_when_no_pass_throws:
  assumes "ending (validate_index rt path (Parsed (JArr index))) \<noteq> Uncaught_TypeError"
    and "j < length index"
    and "field (index ! j) (lit ''createdAt'') = Some (JStr s)"
    and "matches_date s" and "\<not> date_is_valid rt (s @ lit ''T00:00:00Z'')"
  shows "entry_prefix j @ lit ''.createdAt must be ISO date YYYY-MM-DD''
           \<in> set (stderr (validate_index rt path (Parsed (JArr index))))
         \<and> ending (validate_index rt path (Parsed (JArr index))) = Exit 1"
proof -
  let ?m = "entry_prefix j @ lit ''.createdAt must be ISO date YYYY-MM-DD''"
  have nt: "\<forall>e\<in>set index. \<not> entry_throws e"
    using assms(1) by (simp add: no_throw_run)
  have c: "is_container (index ! j)" using assms(3) by (rule field_Some_container)
  have "\<not> isIsoDate rt (field (index ! j) (lit ''createdAt''))"
    using assms(3,4,5) by (simp add: isIsoDate_def)
  then have "?m \<in> set (entry_messages rt (0 + j) (index ! j) ({} \<union> keys_of (take j index)))"
    using c nt assms(2) by (simp add: created_at_message_emitted)
  then have "?m \<in> set (report rt 0 index {})"
    using report_nth [OF nt assms(2), of rt 0 "{}"] by blast
  then have v: "?m \<in> set (violations rt index)" by (simp add: violations_report)
  then have "violations rt index \<noteq> []" by auto
  then show ?thesis using v assms(1) by (simp add: run_array split: if_splits)
qed

lemma february_30_is_reported:
  "lit ''index.json[0].createdAt must be ISO date YYYY-MM-DD''
     \<in> set (stderr (validate_index sample_runtime (lit ''index.json'')
          (Parsed (JArr [JObj [(lit ''createdAt'', JStr (lit ''2024-02-30''))]]))))
   \<and> ending (validate_index sample_runtime (lit ''index.json'')
          (Parsed (JArr [JObj [(lit ''createdAt'', JStr (lit ''2024-02-30''))]]))) = Exit 1"
  by code_simp

text \<open>
  C4. The claim promises the \<open>createdAt\<close> violation for every such entry. The entry below
  has the date \<open>2024-02-30\<close> and a \<open>source\<close> that is an object with a member named
  \<open>toString\<close>: \<open>String(record.source)\<close> throws before the date is looked at, the run ends
  with the uncaught error, and the error stream has no line about \<open>createdAt\<close>.
\<close>

theorem created_at_check_not_reached:
  "validate_index sample_runtime (lit ''index.json'')
     (Parsed (JArr [JObj [(lit ''createdAt'', JStr (lit ''2024-02-30'')),
                          (lit ''source'', JObj [(lit ''toString'', JNum (lit ''1''))])]])) =
     \<lparr>stderr = map lit
        [''index.json[0].id must be a non-empty string'',
         ''index.json[0].tool must be a non-empty string'',
         ''index.json[0].version must be a non-empty string'',
         ''index.json[0].description must be a non-empty string'',
         ''index.json[0].signer must be a non-empty string'',
         ''index.json[0].frameworks must be a non-empty string array'',
         ''index.json[0].mappingIds must be a non-empty string array'',
         ''index.json[0].packUrl must be an https URL'',
         ''index.json[0].publicKeyUrl must be an https URL'',
         ''index.json[0].sha256 must be a 64-char hex string''],
      stdout = [], ending = Uncaught_TypeError\<rparr>"
  by code_simp

theorem created_at_check_not_reached_witness:
  "lit ''index.json[0].createdAt must be ISO date YYYY-MM-DD''
     \<notin> set (stderr (validate_index sample_runtime (lit ''index.json'')
          (Parsed (JArr [JObj [(lit ''createdAt'', JStr (lit ''2024-02-30'')),
                               (lit ''source'', JObj [(lit ''toString'', JNum (lit ''1''))])]]))))"
  unfolding created_at_check_not_reached by (simp add: lit_def)

section \<open>Accumulation and order\<close>

text \<open>
  The error stream of every run is the list of lines that the checks write, in entry order
  and check order, up to the first coercion that throws; the summary line follows when the
  run leaves with status 1. In a run where no coercion throws, that list holds the
  violations of every check of every entry.
\<close>

lemma stderr_is_report:
  "stderr (validate_index rt path (Parsed (JArr index))) =
     report rt 0 index {}
     @ (if ending (validate_index rt path (Parsed (JArr index))) = Exit 1
        then [lit ''Index validation failed.''] else [])"
  by (simp add: run_array violations_report)

lemma emitted_all_checks:
  "None \<notin> set cs \<Longrightarrow> emitted cs = concat (map violations_of cs)"
  by (induction cs rule: emitted.induct) simp_all

lemma checks_complete:
  assumes "\<not> entry_throws e"
  shows "None \<notin> set (checks_in_order rt i e sn)"
proof (cases "is_container e")
  case False
  then show ?thesis by (simp add: checks_in_order_def)
next
  case True
  then have "to_text (field e (lit ''source'')) \<noteq> None" and "entry_key e \<noteq> None"
    using assms by (simp_all add: entry_throws_def)
  then show ?thesis using True
    by (auto simp: checks_in_order_def field_checks_complete duplicate_check_def)
qed

lemma report_is_full_report:
  "\<forall>e\<in>set es. \<not> entry_throws e \<Longrightarrow> report rt i es sn = full_report rt i es sn"
proof (induction es arbitrary: i sn)
  case Nil
  then show ?case by simp
next
  case (Cons e es)
  have "entry_messages rt i e sn = all_entry_messages rt i e sn"
    using Cons.prems
    by (simp add: entry_messages_def all_entry_messages_def emitted_all_checks checks_complete)
  moreover have "report rt (Suc i) es (seen_after e sn) = full_report rt (Suc i) es (seen_after e sn)"
    using Cons.prems by (intro Cons.IH) simp
  ultimately show ?case using Cons.prems by simp
qed

lemma all_checks_reported_when_no_pass_throws:
  assumes "ending (validate_index rt path (Parsed (JArr index))) \<noteq> Uncaught_TypeError"
  shows "stderr (validate_index rt path (Parsed (JArr index))) =
           full_report rt 0 index {}
           @ (if ending (validate_index rt path (Parsed (JArr index))) = Exit 1
              then [lit ''Index validation failed.''] else [])"
proof -
  have "\<forall>e\<in>set index. \<not> entry_throws e"
    using assms by (simp add: no_throw_run)
  then have "report rt 0 index {} = full_report rt 0 index {}"
    by (rule report_is_full_report)
  then show ?thesis by (simp add: stderr_is_report)
qed

text \<open>
  The violations that the checks of the index of C5 below have: among them the
  \<open>createdAt\<close> violation of the first entry and the violation of the second entry.
\<close>

lemma full_report_of_thrown_index:
  "lit ''index.json[0].createdAt must be ISO date YYYY-MM-DD''
     \<in> set (full_report sample_runtime 0
              [JObj [(lit ''source'', JObj [(lit ''toString'', JNum (lit ''1''))]),
                     (lit ''createdAt'', JStr (lit ''bad''))],
               JNull] {})
   \<and> lit ''index.json[1] must be an object''
     \<in> set (full_report sample_runtime 0
              [JObj [(lit ''source'', JObj [(lit ''toString'', JNum (lit ''1''))]),
                     (lit ''createdAt'', JStr (lit ''bad''))],
               JNull] {})"
  by code_simp

text \<open>
  C5. The claim has the violations of all checks of all entries accumulated and written
  to the output, in entry order and check order. On the index below the coercion of
  \<open>source\<close> throws in the first entry: the run ends with the uncaught error after the
  \<open>sha256\<close> line of that entry, and neither the \<open>createdAt\<close> violation of the first
  entry nor the violation of the second entry, which is \<open>null\<close>, is ever written.
\<close>

theorem later_violations_lost_after_throw:
  "validate_index sample_runtime (lit ''index.json'')
     (Parsed (JArr [JObj [(lit ''source'', JObj [(lit ''toString'', JNum (lit ''1''))]),
                          (lit ''createdAt'', JStr (lit ''bad''))],
                    JNull])) =
     \<lparr>stderr = map lit
        [''index.json[0].id must be a non-empty string'',
         ''index.json[0].tool must be a non-empty string'',
         ''index.json[0].version must be a non-empty string'',
         ''index.json[0].description must be a non-empty string'',
         ''index.json[0].signer must be a non-empty string'',
         ''index.json[0].frameworks must be a non-empty string array'',
         ''index.json[0].mappingIds must be a non-empty string array'',
         ''index.json[0].packUrl must be an https URL'',
         ''index.json[0].publicKeyUrl must be an https URL'',
         ''index.json[0].sha256 must be a 64-char hex string''],
      stdout = [], ending = Uncaught_TypeError\<rparr>"
  by code_simp

theorem later_violations_lost_after_throw_witness:
  "lit ''index.json[0].createdAt must be ISO date YYYY-MM-DD''
     \<notin> set (stderr (validate_index sample_runtime (lit ''index.json'')
          (Parsed (JArr [JObj [(lit ''source'', JObj [(lit ''toString'', JNum (lit ''1''))]),
                               (lit ''createdAt'', JStr (lit ''bad''))],
                         JNull]))))
   \<and> lit ''index.json[1] must be an object''
     \<notin> set (stderr (validate_index sample_runtime (lit ''index.json'')
          (Parsed (JArr [JObj [(lit ''source'', JObj [(lit ''toString'', JNum (lit ''1''))]),
                               (lit ''createdAt'', JStr (lit ''bad''))],
                         JNull]))))"
  unfolding later_violations_lost_after_throw by (simp add: lit_def)

section \<open>The loader\<close>

text \<open>
  C6. For every input whose parsed top-level value is not an array (an object or a scalar
  at the top level), the run writes the one line about the shape of the index and leaves
  with status 1; no line about an entry is written.
\<close>

theorem top_level_not_array_is_fatal:
  assumes "\<not> is_array data"
  shows "validate_index rt path (Parsed data) =
           \<lparr>stderr = [lit ''index.json must be an array of entries''],
            stdout = [], ending = Exit 1\<rparr>"
  using assms by (cases data) (simp_all add: validate_index_def initial_def)

theorem top_level_not_array_is_fatal_witness:
  "validate_index sample_runtime (lit ''index.json'')
       (Parsed (JObj [(lit ''id'', JStr (lit ''a''))])) =
     \<lparr>stderr = [lit ''index.json must be an array of entries''], stdout = [], ending = Exit 1\<rparr>
   \<and> validate_index sample_runtime (lit ''index.json'') (Parsed (JNum (lit ''7''))) =
     \<lparr>stderr = [lit ''index.json must be an array of entries''], stdout = [], ending = Exit 1\<rparr>"
  using top_level_not_array_is_fatal
          [of "JObj [(lit ''id'', JStr (lit ''a''))]" sample_runtime "lit ''index.json''"]
    top_level_not_array_is_fatal [of "JNum (lit ''7'')" sample_runtime "lit ''index.json''"]
  by simp

section \<open>The pack validation wrapper\<close>

text \<open>
  C7. Called with no argument, the wrapper writes the usage line to the error stream and
  leaves with status 2. Called with at least one argument, it writes nothing itself, calls
  the pack content validator on the first argument and leaves with that tool's status.
\<close>

theorem wrapper_usage_or_delegation:
  "validate_pack corsair [] =
     \<lparr>sh_stderr = [''Usage: scripts/validate-pack.sh <pack.json>''], sh_status = 2\<rparr>
   \<and> validate_pack corsair (arg # others) =
     \<lparr>sh_stderr = [], sh_status = corsair [''mappings'', ''validate'', ''--file'', arg]\<rparr>"
  by (simp add: validate_pack_def)

theorem wrapper_usage_or_delegation_witness:
  "validate_pack sample_corsair [] =
     \<lparr>sh_stderr = [''Usage: scripts/validate-pack.sh <pack.json>''], sh_status = 2\<rparr>
   \<and> validate_pack sample_corsair [''pack.json''] = \<lparr>sh_stderr = [], sh_status = 0\<rparr>
   \<and> validate_pack sample_corsair [''other.json'', ''x''] = \<lparr>sh_stderr = [], sh_status = 1\<rparr>"
  using wrapper_usage_or_delegation [of sample_corsair "''pack.json''" "[]"]
    wrapper_usage_or_delegation [of sample_corsair "''other.json''" "[''x'']"]
  by (simp add: sample_corsair_def)

section \<open>How a run ends\<close>

text \<open>
  A run ends with status 0, with status 1, or with the uncaught \<open>TypeError\<close>; the last
  happens exactly when some entry throws, that is, when the \<open>source\<close>, \<open>id\<close> or
  \<open>version\<close> of some entry is a value whose string coercion throws.
\<close>

lemma run_ends_with_status_or_throws:
  "ending (validate_index rt path input) \<in> {Exit 0, Exit 1, Uncaught_TypeError}
   \<and> (ending (validate_index rt path (Parsed (JArr index))) = Uncaught_TypeError
        \<longleftrightarrow> (\<exists>e\<in>set index. entry_throws e))"
proof
  show "ending (validate_index rt path input) \<in> {Exit 0, Exit 1, Uncaught_TypeError}"
  proof (cases input)
    case (Unreadable m)
    then show ?thesis by (simp add: validate_index_def)
  next
    case (Parsed data)
    show ?thesis
    proof (cases "is_array data")
      case True
      then obtain idx where "data = JArr idx" by (cases data) simp_all
      then show ?thesis using Parsed by (simp add: run_array)
    next
      case False
      then show ?thesis using Parsed
        by (cases data) (simp_all add: validate_index_def)
    qed
  qed
  show "ending (validate_index rt path (Parsed (JArr index))) = Uncaught_TypeError
        \<longleftrightarrow> (\<exists>e\<in>set index. entry_throws e)"
    using no_throw_run [of rt path index] by blast
qed

text \<open>
  C8. The claim has every run over a parsed value complete without an uncaught exception,
  the coercion of \<open>source\<close> being total. On the index below \<open>String(record.source)\<close>
  throws a \<open>TypeError\<close> that nothing catches: the pass stops after the \<open>sha256\<close> check
  of the first entry and the run writes no summary line.
\<close>

theorem source_coercion_throws:
  "validate_index sample_runtime (lit ''index.json'')
     (Parsed (JArr [JObj [(lit ''source'', JObj [(lit ''toString'', JNum (lit ''1''))])]])) =
     \<lparr>stderr = map lit
        [''index.json[0].id must be a non-empty string'',
         ''index.json[0].tool must be a non-empty string'',
         ''index.json[0].version must be a non-empty string'',
         ''index.json[0].description must be a non-empty string'',
         ''index.json[0].signer must be a non-empty string'',
         ''index.json[0].frameworks must be a non-empty string array'',
         ''index.json[0].mappingIds must be a non-empty string array'',
         ''index.json[0].packUrl must be an https URL'',
         ''index.json[0].publicKeyUrl must be an https URL'',
         ''index.json[0].sha256 must be a 64-char hex string''],
      stdout = [], ending = Uncaught_TypeError\<rparr>"
  by code_simp

theorem source_coercion_throws_witness:
  "ending (validate_index sample_runtime (lit ''index.json'')
     (Parsed (JArr [JObj [(lit ''source'', JObj [(lit ''toString'', JNum (lit ''1''))])]])))
   = Uncaught_TypeError"
  by (simp add: source_coercion_throws)

section \<open>Entries without an identity\<close>

text \<open>
  Two entries without \<open>id\<close> and \<open>version\<close> have the key \<open>undefined@undefined\<close>, and the
  second gets the duplicate violation when both passes complete.
\<close>

lemma keyless_entries_duplicate:
  "stderr (validate_index sample_runtime (lit ''index.json'') (Parsed (JArr [JObj [], JObj []])))
     ! 24 = lit ''index.json[1] duplicates id+version undefined@undefined''"
  by code_simp

text \<open>
  C9. The claim promises the duplicate violation at the second of any two entries that
  lack \<open>id\<close> and \<open>version\<close>. Both entries of the index below lack them; the \<open>source\<close>
  of the second makes \<open>String(record.source)\<close> throw before the duplicate check, so the
  error stream ends with the \<open>sha256\<close> line of the second entry and holds no duplicate
  violation.
\<close>

theorem second_keyless_entry_throws_before_duplicate_check:
  "validate_index sample_runtime (lit ''index.json'')
     (Parsed (JArr [JObj [],
                    JObj [(lit ''source'', JObj [(lit ''toString'', JNum (lit ''1''))])]])) =
     \<lparr>stderr = map lit
        [''index.json[0].id must be a non-empty string'',
         ''index.json[0].tool must be a non-empty string'',
         ''index.json[0].version must be a non-empty string'',
         ''index.json[0].description must be a non-empty string'',
         ''index.json[0].signer must be a non-empty string'',
         ''index.json[0].frameworks must be a non-empty string array'',
         ''index.json[0].mappingIds must be a non-empty string array'',
         ''index.json[0].packUrl must be an https URL'',
         ''index.json[0].publicKeyUrl must be an https URL'',
         ''index.json[0].sha256 must be a 64-char hex string'',
         ''index.json[0].source must be one of: vendor, community, internal'',
         ''index.json[0].createdAt must be ISO date YYYY-MM-DD'',
         ''index.json[1].id must be a non-empty string'',
         ''index.json[1].tool must be a non-empty string'',
         ''index.json[1].version must be a non-empty string'',
         ''index.json[1].description must be a non-empty string'',
         ''index.json[1].signer must be a non-empty string'',
         ''index.json[1].frameworks must be a non-empty string array'',
         ''index.json[1].mappingIds must be a non-empty string array'',
         ''index.json[1].packUrl must be an https URL'',
         ''index.json[1].publicKeyUrl must be an https URL'',
         ''index.json[1].sha256 must be a 64-char hex string''],
      stdout = [], ending = Uncaught_TypeError\<rparr>"
  by code_simp

theorem second_keyless_entry_throws_before_duplicate_check_witness:
  "lit ''index.json[1] duplicates id+version undefined@undefined''
     \<notin> set (stderr (validate_index sample_runtime (lit ''index.json'')
          (Parsed (JArr [JObj [],
                         JObj [(lit ''source'', JObj [(lit ''toString'', JNum (lit ''1''))])]]))))"
  unfolding second_keyless_entry_throws_before_duplicate_check by (simp add: lit_def)

section \<open>Appending entries\<close>

text \<open>
  C10. For every index and every list of entries appended to it, the violation lines
  written for the original index are a prefix of those written for the extended index.
\<close>

theorem appended_entries_keep_prefix:
  "prefix (violations rt index) (violations rt (index @ added))"
  unfolding violations_def by (rule loop_errs_prefix)

theorem appended_entries_keep_prefix_witness:
  "prefix (violations sample_runtime [JNull, JObj []])
          (violations sample_runtime ([JNull, JObj []] @ [JObj [], JBool True]))"
  by (rule appended_entries_keep_prefix)

end
